theory Spec2Isabelle
  imports Main
begin

section \<open>Exceptions, effects and the trace of external calls\<close>

text \<open>
  The module \<^verbatim>\<open>vector_store/insert_data.py\<close> drives four external collaborators: the
  Milvus client, the image decoder, the feature extractor and the dataset readers. Each
  of them may raise, and each of them may change the outside world. A computation is
  therefore a function from a state to a result and a new state, where a result is either
  the exception that was raised (\<open>Inl\<close>) or the value returned (\<open>Inr\<close>).
\<close>

datatype exn =
    ValueError string
  | KeyError string
  | SystemExit int
  | Raised string

type_synonym ('a, 's) prog = "'s \<Rightarrow> (exn + 'a) \<times> 's"

definition ret :: "'a \<Rightarrow> ('a, 's) prog" where
  "ret x s = (Inr x, s)"

definition throw :: "exn \<Rightarrow> ('a, 's) prog" where
  "throw e s = (Inl e, s)"

definition and_then :: "('a, 's) prog \<Rightarrow> ('a \<Rightarrow> ('b, 's) prog) \<Rightarrow> ('b, 's) prog" where
  "and_then m f s = (case m s of (Inl e, s') \<Rightarrow> (Inl e, s') | (Inr x, s') \<Rightarrow> f x s')"

text \<open>
  The keyword arguments of \<^verbatim>\<open>client.create_collection\<close> other than the name, as one
  value.
\<close>

record collection_schema =
  vector_field :: string
  dim :: int
  auto_id :: bool
  enable_dynamic_field :: bool
  metric :: string

text \<open>
  A value of the dictionary that is inserted: a string (path, caption) or the embedding,
  whose representation the module never inspects.
\<close>

datatype 'v field = Str string | Emb 'v

type_synonym 'v row = "(string \<times> 'v field) list"

datatype level = INFO | WARNING

datatype log_arg = ArgStr string | ArgInt int | ArgNone

text \<open>
  Every call that leaves the module is recorded, in order, whether it returns or raises.
  A logger call is recorded with its format string and the argument of \<^verbatim>\<open>%\<close>.
\<close>

datatype ('i, 'v) event =
    MilvusClientInit string string
  | ExtractorInit
  | ListCollections
  | DropCollection string
  | CreateCollection string collection_schema
  | Insert string "'v row list"
  | ImageOpen string
  | GetImageFeatures 'i
  | LoadFlickr8k string
  | LoadFlickr30k string
  | Log level string log_arg

type_synonym ('w, 'i, 'v) state = "('i, 'v) event list \<times> 'w"

definition call :: "('i, 'v) event \<Rightarrow> ('a, 'w) prog \<Rightarrow> ('a, ('w, 'i, 'v) state) prog" where
  "call ev m s = (case m (snd s) of (r, w') \<Rightarrow> (r, (fst s @ [ev], w')))"

definition log :: "level \<Rightarrow> string \<Rightarrow> log_arg \<Rightarrow> (unit, ('w, 'i, 'v) state) prog" where
  "log l fmt a s = (Inr (), (fst s @ [Log l fmt a], snd s))"

section \<open>The collaborators\<close>

text \<open>
  A dataset item as the loop reads it: \<^verbatim>\<open>image_object.image_path\<close> and
  \<^verbatim>\<open>image_object.best_caption\<close>.
\<close>

record item =
  image_path :: string
  best_caption :: string

text \<open>
  The behaviour of the collaborators is a parameter of the model: \<open>'w\<close> is the outside
  world (the store, the file system), \<open>'i\<close> a decoded image, \<open>'v\<close> an embedding.
  The acknowledgement of an insert is a dictionary from strings to integers.
\<close>

record ('w, 'i, 'v) env =
  client_init :: "string \<Rightarrow> string \<Rightarrow> (unit, 'w) prog"
  extractor_init :: "(unit, 'w) prog"
  client_list_collections :: "(string list, 'w) prog"
  client_drop_collection :: "string \<Rightarrow> (unit, 'w) prog"
  client_create_collection :: "string \<Rightarrow> collection_schema \<Rightarrow> (unit, 'w) prog"
  client_insert :: "string \<Rightarrow> 'v row list \<Rightarrow> (string \<rightharpoonup> int, 'w) prog"
  image_open :: "string \<Rightarrow> ('i, 'w) prog"
  get_image_features :: "'i \<Rightarrow> ('v, 'w) prog"
  flickr_dataset :: "string \<Rightarrow> (item list, 'w) prog"
  flickr30k_dataset :: "string \<Rightarrow> (item list, 'w) prog"

section \<open>\<^verbatim>\<open>create_collection\<close>\<close>

text \<open>
  Lines 65 to 83. The first part decides whether the function has returned early (the
  \<^verbatim>\<open>return\<close> of line 71); otherwise the create request follows, with
  \<^verbatim>\<open>auto_id=True\<close> and \<^verbatim>\<open>enable_dynamic_field=True\<close>.
\<close>

definition existing_collection_warning :: string where
  "existing_collection_warning =
     ''Inserting data into an existing collection %s, run the script with the flag --delete_existing_collection for a fresh collection with the same name (destroying the existing one).''"

definition create_collection ::
  "('w, 'i, 'v) env \<Rightarrow> string \<Rightarrow> string \<Rightarrow> int \<Rightarrow> string \<Rightarrow> bool
     \<Rightarrow> (unit, ('w, 'i, 'v) state) prog" where
  "create_collection client collection_name vector_field_name dimension metric_type
       delete_existing_collection =
     and_then (call ListCollections (client_list_collections client)) (\<lambda>names.
     and_then
       (if collection_name \<in> set names then
          (if \<not> delete_existing_collection then
             and_then (log WARNING existing_collection_warning (ArgStr collection_name))
               (\<lambda>_. ret True)
           else
             and_then (call (DropCollection collection_name)
                         (client_drop_collection client collection_name)) (\<lambda>_.
             and_then (log INFO ''Collection %s dropped.'' (ArgStr collection_name))
               (\<lambda>_. ret False)))
        else ret False)
       (\<lambda>returned.
          if returned then ret ()
          else
            call (CreateCollection collection_name
                    \<lparr>vector_field = vector_field_name, dim = dimension, auto_id = True,
                     enable_dynamic_field = True, metric = metric_type\<rparr>)
              (client_create_collection client collection_name
                    \<lparr>vector_field = vector_field_name, dim = dimension, auto_id = True,
                     enable_dynamic_field = True, metric = metric_type\<rparr>)))"

section \<open>\<^verbatim>\<open>insert_data\<close>\<close>

text \<open>
  A Python dictionary display evaluates its items from left to right; a key that is
  already present keeps its position and takes the new value.
\<close>

fun dict_setitem :: "('k \<times> 'a) list \<Rightarrow> 'k \<Rightarrow> 'a \<Rightarrow> ('k \<times> 'a) list" where
  "dict_setitem [] k v = [(k, v)]"
| "dict_setitem ((k', v') # d) k v =
     (if k' = k then (k', v) # d else (k', v') # dict_setitem d k v)"

definition dict_display :: "('k \<times> 'a) list \<Rightarrow> ('k \<times> 'a) list" where
  "dict_display kvs = foldl (\<lambda>d kv. dict_setitem d (fst kv) (snd kv)) [] kvs"

text \<open>Lines 107 to 111: the dictionary built for one item.\<close>

definition item_row :: "string \<Rightarrow> item \<Rightarrow> 'v \<Rightarrow> 'v row" where
  "item_row vector_field_name image_object embeddings =
     dict_display
       [(''filename'', Str (image_path image_object)),
        (''caption'', Str (best_caption image_object)),
        (vector_field_name, Emb embeddings)]"

text \<open>
  Lines 96 to 115: the body of the loop, from the running count to the new one.
  \<^verbatim>\<open>res["insert_count"]\<close> raises \<^verbatim>\<open>KeyError\<close> when the key is missing. No
  exception is caught.
\<close>

definition insert_step ::
  "('w, 'i, 'v) env \<Rightarrow> string \<Rightarrow> string \<Rightarrow> item \<Rightarrow> int \<Rightarrow> (int, ('w, 'i, 'v) state) prog" where
  "insert_step client collection_name vector_field_name image_object inserted_count =
     and_then (call (ImageOpen (image_path image_object))
                 (image_open client (image_path image_object))) (\<lambda>image.
     and_then (call (GetImageFeatures image) (get_image_features client image)) (\<lambda>embeddings.
     and_then (call (Insert collection_name [item_row vector_field_name image_object embeddings])
                 (client_insert client collection_name
                    [item_row vector_field_name image_object embeddings])) (\<lambda>res.
       case res ''insert_count'' of
         None \<Rightarrow> throw (KeyError ''insert_count'')
       | Some n \<Rightarrow> if n > 0 then ret (inserted_count + n) else ret inserted_count)))"

text \<open>Line 94: the \<^verbatim>\<open>for\<close> loop over the dataset, in its order.\<close>

fun insert_loop ::
  "('w, 'i, 'v) env \<Rightarrow> string \<Rightarrow> string \<Rightarrow> item list \<Rightarrow> int \<Rightarrow> (int, ('w, 'i, 'v) state) prog" where
  "insert_loop client collection_name vector_field_name [] inserted_count = ret inserted_count"
| "insert_loop client collection_name vector_field_name (image_object # rest) inserted_count =
     and_then (insert_step client collection_name vector_field_name image_object inserted_count)
       (insert_loop client collection_name vector_field_name rest)"

text \<open>Lines 93 to 116: the count starts at 0 and is logged after the loop.\<close>

definition insert_data ::
  "('w, 'i, 'v) env \<Rightarrow> string \<Rightarrow> string \<Rightarrow> item list \<Rightarrow> (unit, ('w, 'i, 'v) state) prog" where
  "insert_data client collection_name vector_field_name dataset =
     and_then (insert_loop client collection_name vector_field_name dataset 0) (\<lambda>inserted_count.
       log INFO ''Inserted %d images into Milvus'' (ArgInt inserted_count))"

section \<open>\<^verbatim>\<open>parse_args\<close> and \<^verbatim>\<open>main\<close>\<close>

text \<open>
  The constants of \<^verbatim>\<open>vector_store/defaults.py\<close>, which the module imports and whose
  values it does not fix.
\<close>

record defaults =
  MILVUS_URI :: string
  MILVUS_COLLECTION_NAME :: string
  MILVUS_DB_NAME :: string
  VECTOR_FIELD_DIM :: int
  DEFAULT_METRIC :: string
  DEFAULT_VECTOR_FIELD_NAME :: string

text \<open>
  The command line, one optional value per flag (\<open>None\<close>: the flag is not given). The
  dimension is the token after the conversion \<^verbatim>\<open>type=int\<close>.
\<close>

record cli =
  cli_data_path :: "string option"
  cli_data_type :: "string option"
  cli_uri :: "string option"
  cli_collection_name :: "string option"
  cli_db_name :: "string option"
  cli_dimension :: "int option"
  cli_metric_type :: "string option"
  cli_delete_existing_collection :: bool

record args =
  data_path :: string
  data_type :: "string option"
  uri :: string
  collection_name :: string
  db_name :: string
  dimension :: int
  metric_type :: string
  delete_existing_collection :: bool

text \<open>
  Lines 19 to 44. \<^verbatim>\<open>argparse\<close> exits with status 2 on a value outside
  \<^verbatim>\<open>choices\<close> and on a missing required flag. \<^verbatim>\<open>--data_path\<close> is required;
  \<^verbatim>\<open>--data_type\<close> is not, and has no default, so it is \<^verbatim>\<open>None\<close> when not given.
\<close>

definition parse_args :: "defaults \<Rightarrow> cli \<Rightarrow> exn + args" where
  "parse_args d c =
     (if (case cli_data_type c of
            Some t \<Rightarrow> t \<notin> set [''flickr8k'', ''flickr30k'']
          | None \<Rightarrow> False)
      then Inl (SystemExit 2)
      else
        (case cli_data_path c of
           None \<Rightarrow> Inl (SystemExit 2)
         | Some p \<Rightarrow>
             Inr \<lparr>data_path = p,
                  data_type = cli_data_type c,
                  uri = (case cli_uri c of Some u \<Rightarrow> u | None \<Rightarrow> MILVUS_URI d),
                  collection_name =
                    (case cli_collection_name c of Some n \<Rightarrow> n
                     | None \<Rightarrow> MILVUS_COLLECTION_NAME d),
                  db_name = (case cli_db_name c of Some n \<Rightarrow> n | None \<Rightarrow> MILVUS_DB_NAME d),
                  dimension = (case cli_dimension c of Some n \<Rightarrow> n | None \<Rightarrow> VECTOR_FIELD_DIM d),
                  metric_type =
                    (case cli_metric_type c of Some m \<Rightarrow> m | None \<Rightarrow> DEFAULT_METRIC d),
                  delete_existing_collection = cli_delete_existing_collection c\<rparr>))"

text \<open>
  Lines 119 to 160. \<^verbatim>\<open>pprint.pp\<close> returns \<^verbatim>\<open>None\<close>, which is what the first log
  line formats. The dataset type is examined after the client, the extractor and the
  collection have been set up.
\<close>

definition main :: "defaults \<Rightarrow> ('w, 'i, 'v) env \<Rightarrow> cli \<Rightarrow> (unit, ('w, 'i, 'v) state) prog" where
  "main d client c =
     (case parse_args d c of
        Inl e \<Rightarrow> throw e
      | Inr a \<Rightarrow>
          and_then (log INFO ''Running insert operation with arguments: %s'' ArgNone) (\<lambda>_.
          and_then (call (MilvusClientInit (uri a) (db_name a))
                      (client_init client (uri a) (db_name a))) (\<lambda>_.
          and_then (call ExtractorInit (extractor_init client)) (\<lambda>_.
          and_then (create_collection client (collection_name a) (DEFAULT_VECTOR_FIELD_NAME d)
                      (dimension a) (metric_type a) (delete_existing_collection a)) (\<lambda>_.
            if data_type a = Some ''flickr8k'' then
              and_then (call (LoadFlickr8k (data_path a)) (flickr_dataset client (data_path a)))
                (\<lambda>dataset.
                   insert_data client (collection_name a) (DEFAULT_VECTOR_FIELD_NAME d) dataset)
            else if data_type a = Some ''flickr30k'' then
              and_then (call (LoadFlickr30k (data_path a)) (flickr30k_dataset client (data_path a)))
                (\<lambda>dataset.
                   insert_data client (collection_name a) (DEFAULT_VECTOR_FIELD_NAME d) dataset)
            else throw (ValueError ''Invalid dataset type''))))))"

text \<open>
  The exit status of the interpreter: 0 on return, the code of \<^verbatim>\<open>SystemExit\<close>, and 1
  for any other uncaught exception.
\<close>

definition exit_status :: "exn + unit \<Rightarrow> int" where
  "exit_status r = (case r of Inr _ \<Rightarrow> 0 | Inl (SystemExit n) \<Rightarrow> n | Inl _ \<Rightarrow> 1)"

section \<open>Observations on a trace\<close>

fun is_insert :: "('i, 'v) event \<Rightarrow> bool" where
  "is_insert (Insert _ _) = True"
| "is_insert _ = False"

fun is_extract :: "('i, 'v) event \<Rightarrow> bool" where
  "is_extract (GetImageFeatures _) = True"
| "is_extract _ = False"

fun is_image_open :: "('i, 'v) event \<Rightarrow> bool" where
  "is_image_open (ImageOpen _) = True"
| "is_image_open _ = False"

fun is_drop :: "('i, 'v) event \<Rightarrow> bool" where
  "is_drop (DropCollection _) = True"
| "is_drop _ = False"

fun is_create :: "('i, 'v) event \<Rightarrow> bool" where
  "is_create (CreateCollection _ _) = True"
| "is_create _ = False"

text \<open>The calls that reach the vector store, the construction of the client included.\<close>

fun is_store_call :: "('i, 'v) event \<Rightarrow> bool" where
  "is_store_call (MilvusClientInit _ _) = True"
| "is_store_call ListCollections = True"
| "is_store_call (DropCollection _) = True"
| "is_store_call (CreateCollection _ _) = True"
| "is_store_call (Insert _ _) = True"
| "is_store_call _ = False"

definition calls :: "(('i, 'v) event \<Rightarrow> bool) \<Rightarrow> ('i, 'v) event list \<Rightarrow> nat" where
  "calls P tr = length (filter P tr)"

text \<open>
  The specification names the result of provisioning \<open>Created\<close>, \<open>Skipped\<close> or
  \<open>Replaced\<close>. \<^verbatim>\<open>create_collection\<close> returns \<^verbatim>\<open>None\<close> on every path, so the outcome
  is read off the store calls that one provisioning call has issued: a create without a
  drop, neither, or a drop followed by a create.
\<close>

datatype outcome = Created | Skipped | Replaced

definition provision_outcome :: "('i, 'v) event list \<Rightarrow> outcome option" where
  "provision_outcome tr =
     (if calls is_create tr = 1 \<and> calls is_drop tr = 0 then Some Created
      else if calls is_create tr = 0 \<and> calls is_drop tr = 0 then Some Skipped
      else if calls is_create tr = 1 \<and> calls is_drop tr = 1 then Some Replaced
      else None)"

section \<open>A reference store\<close>

text \<open>
  The Milvus server is not part of the repository. Where a property depends on what the
  store holds after a call, the store is taken to be a table from collection names to
  schemas, in creation order: listing returns the names, dropping removes the name,
  creating adds the name with its schema. The server's own validation of a schema is the
  parameter \<open>accepts\<close>; a create request under a name that is taken by a different
  schema is refused. An insert is refused when the collection does not exist or when a
  row does not carry, under the collection's vector field, an embedding whose length is
  the collection's dimension (\<open>len\<close> measures an embedding); otherwise every row is
  acknowledged.
\<close>

type_synonym store = "(string \<times> collection_schema) list"

definition store_list :: "(string list, store) prog" where
  "store_list st = (Inr (map fst st), st)"

definition store_drop :: "string \<Rightarrow> (unit, store) prog" where
  "store_drop name st = (Inr (), filter (\<lambda>p. fst p \<noteq> name) st)"

definition store_create ::
  "(collection_schema \<Rightarrow> bool) \<Rightarrow> string \<Rightarrow> collection_schema \<Rightarrow> (unit, store) prog" where
  "store_create accepts name sch st =
     (if \<not> accepts sch then (Inl (Raised ''MilvusException''), st)
      else
        (case map_of st name of
           None \<Rightarrow> (Inr (), st @ [(name, sch)])
         | Some old \<Rightarrow>
             if old = sch then (Inr (), st) else (Inl (Raised ''MilvusException''), st)))"

definition row_fits :: "('v \<Rightarrow> int) \<Rightarrow> collection_schema \<Rightarrow> 'v row \<Rightarrow> bool" where
  "row_fits len sch r =
     (case map_of r (vector_field sch) of
        Some (Emb v) \<Rightarrow> len v = dim sch
      | Some (Str _) \<Rightarrow> False
      | None \<Rightarrow> False)"

definition store_insert ::
  "('v \<Rightarrow> int) \<Rightarrow> string \<Rightarrow> 'v row list \<Rightarrow> (string \<rightharpoonup> int, store) prog" where
  "store_insert len name data st =
     (case map_of st name of
        None \<Rightarrow> (Inl (Raised ''MilvusException''), st)
      | Some sch \<Rightarrow>
          if list_all (row_fits len sch) data
          then (Inr [''insert_count'' \<mapsto> int (length data)], st)
          else (Inl (Raised ''MilvusException''), st))"

definition pure :: "(exn + 'a) \<Rightarrow> ('a, 's) prog" where
  "pure r s = (r, s)"

definition store_env ::
  "(collection_schema \<Rightarrow> bool) \<Rightarrow> ('v \<Rightarrow> int) \<Rightarrow> (string \<Rightarrow> exn + 'i) \<Rightarrow> ('i \<Rightarrow> exn + 'v)
     \<Rightarrow> (string \<Rightarrow> exn + item list) \<Rightarrow> (string \<Rightarrow> exn + item list) \<Rightarrow> (store, 'i, 'v) env" where
  "store_env accepts len open_file features read8k read30k =
     \<lparr>client_init = (\<lambda>_ _. ret ()),
      extractor_init = ret (),
      client_list_collections = store_list,
      client_drop_collection = store_drop,
      client_create_collection = store_create accepts,
      client_insert = store_insert len,
      image_open = (\<lambda>p. pure (open_file p)),
      get_image_features = (\<lambda>i. pure (features i)),
      flickr_dataset = (\<lambda>p. pure (read8k p)),
      flickr30k_dataset = (\<lambda>p. pure (read30k p))\<rparr>"

subsection \<open>Concrete inputs\<close>

text \<open>
  A small world to run the program in: the file \<^verbatim>\<open>missing.jpg\<close> cannot be opened, every
  other image is decoded (an image is named by its path) and embedded as a vector of
  length four; the server accepts a schema exactly when its dimension is positive.
\<close>

definition demo_open :: "string \<Rightarrow> exn + string" where
  "demo_open p = (if p = ''missing.jpg'' then Inl (Raised ''FileNotFoundError'') else Inr p)"

definition demo_features :: "string \<Rightarrow> exn + int list" where
  "demo_features i = Inr [1, 2, 3, 4]"

definition dog :: item where
  "dog = \<lparr>image_path = ''dog.jpg'', best_caption = ''a dog''\<rparr>"

definition cat :: item where
  "cat = \<lparr>image_path = ''cat.jpg'', best_caption = ''a cat''\<rparr>"

definition missing :: item where
  "missing = \<lparr>image_path = ''missing.jpg'', best_caption = ''nothing''\<rparr>"

definition demo_dataset :: "string \<Rightarrow> exn + item list" where
  "demo_dataset root = Inr [dog, cat]"

definition demo_env :: "(store, string, int list) env" where
  "demo_env =
     store_env (\<lambda>sch. 0 < dim sch) (\<lambda>v. int (length v)) demo_open demo_features
       demo_dataset demo_dataset"

definition demo_defaults :: defaults where
  "demo_defaults =
     \<lparr>MILVUS_URI = ''http://localhost:19530'',
      MILVUS_COLLECTION_NAME = ''images'',
      MILVUS_DB_NAME = ''default'',
      VECTOR_FIELD_DIM = 4,
      DEFAULT_METRIC = ''COSINE'',
      DEFAULT_VECTOR_FIELD_NAME = ''vector''\<rparr>"

definition demo_schema :: "int \<Rightarrow> collection_schema" where
  "demo_schema n =
     \<lparr>vector_field = ''vector'', dim = n, auto_id = True, enable_dynamic_field = True,
      metric = ''COSINE''\<rparr>"

definition demo_cli :: "string option \<Rightarrow> bool \<Rightarrow> cli" where
  "demo_cli t force =
     \<lparr>cli_data_path = Some ''/data'',
      cli_data_type = t,
      cli_uri = None,
      cli_collection_name = None,
      cli_db_name = None,
      cli_dimension = None,
      cli_metric_type = None,
      cli_delete_existing_collection = force\<rparr>"

text \<open>
  The same world with a store that accepts every insert call and acknowledges it with
  the \<^verbatim>\<open>insert_count\<close> \<open>n\<close>, whatever was sent.
\<close>

definition ack_env :: "int \<Rightarrow> (store, string, int list) env" where
  "ack_env n = demo_env\<lparr>client_insert := (\<lambda>name data. ret [''insert_count'' \<mapsto> n])\<rparr>"

text \<open>
  The same world with a store whose \<^verbatim>\<open>create_collection\<close> accepts every schema.
\<close>

definition lenient_env :: "(store, string, int list) env" where
  "lenient_env =
     store_env (\<lambda>sch. True) (\<lambda>v. int (length v)) demo_open demo_features demo_dataset
       demo_dataset"

text \<open>
  The keyword arguments that \<^verbatim>\<open>create_collection\<close> sends for a vector field name, a
  dimension and a metric type.
\<close>

definition requested_schema :: "string \<Rightarrow> int \<Rightarrow> string \<Rightarrow> collection_schema" where
  "requested_schema vf d m =
     \<lparr>vector_field = vf, dim = d, auto_id = True, enable_dynamic_field = True, metric = m\<rparr>"

definition demo_store :: store where
  "demo_store = [(''images'', demo_schema 4)]"

subsection \<open>A run in which nothing fails\<close>

text \<open>
  Starting from the world \<open>w\<close>, every image of the list is opened, every embedding is
  extracted and every insert returns an acknowledgement whose \<^verbatim>\<open>insert_count\<close> is 1.
\<close>

fun all_succeed ::
  "('w, 'i, 'v) env \<Rightarrow> string \<Rightarrow> string \<Rightarrow> item list \<Rightarrow> 'w \<Rightarrow> bool" where
  "all_succeed client cn vf [] w = True"
| "all_succeed client cn vf (x # xs) w =
     (case image_open client (image_path x) w of
        (Inl _, _) \<Rightarrow> False
      | (Inr i, w1) \<Rightarrow>
          (case get_image_features client i w1 of
             (Inl _, _) \<Rightarrow> False
           | (Inr v, w2) \<Rightarrow>
               (case client_insert client cn [item_row vf x v] w2 of
                  (Inl _, _) \<Rightarrow> False
                | (Inr res, w3) \<Rightarrow>
                    res ''insert_count'' = Some 1 \<and> all_succeed client cn vf xs w3)))"

section \<open>Sequencing and the loop\<close>

lemma and_then_Inr: "m s = (Inr x, s') \<Longrightarrow> and_then m f s = f x s'"
  by (simp add: and_then_def)

lemma and_then_Inl: "m s = (Inl e, s') \<Longrightarrow> and_then m f s = (Inl e, s')"
  by (simp add: and_then_def)

lemma and_then_ret: "and_then (ret x) f = f x"
  by (rule ext) (simp add: and_then_def ret_def)

lemma and_then_assoc: "and_then (and_then m f) g = and_then m (\<lambda>x. and_then (f x) g)"
  by (rule ext) (simp add: and_then_def split: prod.splits sum.splits)

lemma call_eq: "m w = (r, w') \<Longrightarrow> call ev m (tr, w) = (r, (tr @ [ev], w'))"
  by (simp add: call_def)

lemma log_eq: "log l fmt a (tr, w) = (Inr (), (tr @ [Log l fmt a], w))"
  by (simp add: log_def)

lemma insert_loop_append:
  "insert_loop env cn vf (xs @ ys) =
     (\<lambda>c. and_then (insert_loop env cn vf xs c) (insert_loop env cn vf ys))"
proof (induction xs)
  case Nil
  show ?case by (rule ext) (simp add: and_then_ret)
next
  case (Cons x xs)
  show ?case by (rule ext) (simp add: Cons and_then_assoc)
qed

lemma insert_step_acknowledged:
  assumes "image_open env (image_path x) w = (Inr i, w1)"
    and "get_image_features env i w1 = (Inr v, w2)"
    and "client_insert env cn [item_row vf x v] w2 = (Inr res, w3)"
    and "res ''insert_count'' = Some n"
  shows "insert_step env cn vf x c (tr, w) =
           (Inr (if n > 0 then c + n else c),
            (tr @ [ImageOpen (image_path x), GetImageFeatures i, Insert cn [item_row vf x v]], w3))"
  using assms by (simp add: insert_step_def and_then_def call_def ret_def)

lemma insert_step_load_fails:
  assumes "image_open env (image_path x) w = (Inl e, w1)"
  shows "insert_step env cn vf x c (tr, w) = (Inl e, (tr @ [ImageOpen (image_path x)], w1))"
  using assms by (simp add: insert_step_def and_then_def call_def)

lemma insert_step_extract_fails:
  assumes "image_open env (image_path x) w = (Inr i, w1)"
    and "get_image_features env i w1 = (Inl e, w2)"
  shows "insert_step env cn vf x c (tr, w) =
           (Inl e, (tr @ [ImageOpen (image_path x), GetImageFeatures i], w2))"
  using assms by (simp add: insert_step_def and_then_def call_def)

lemma calls_append: "calls P (xs @ ys) = calls P xs + calls P ys"
  by (simp add: calls_def)

lemma insert_loop_all_succeed:
  "all_succeed env cn vf items w \<Longrightarrow>
     \<exists>tr' w'. insert_loop env cn vf items c (tr, w) = (Inr (c + int (length items)), (tr', w'))
       \<and> calls is_image_open tr' = calls is_image_open tr + length items
       \<and> calls is_extract tr' = calls is_extract tr + length items
       \<and> calls is_insert tr' = calls is_insert tr + length items"
proof (induction items arbitrary: c tr w)
  case Nil
  show ?case by (simp add: ret_def)
next
  case (Cons x xs)
  obtain r1 w1 where o1: "image_open env (image_path x) w = (r1, w1)"
    by (cases "image_open env (image_path x) w")
  with Cons.prems obtain i where r1: "r1 = Inr i"
    by (cases r1) simp_all
  obtain r2 w2 where g1: "get_image_features env i w1 = (r2, w2)"
    by (cases "get_image_features env i w1")
  with Cons.prems o1 r1 obtain v where r2: "r2 = Inr v"
    by (cases r2) simp_all
  obtain r3 w3 where n1: "client_insert env cn [item_row vf x v] w2 = (r3, w3)"
    by (cases "client_insert env cn [item_row vf x v] w2")
  with Cons.prems o1 r1 g1 r2 obtain res where r3: "r3 = Inr res"
    by (cases r3) simp_all
  have o: "image_open env (image_path x) w = (Inr i, w1)" using o1 r1 by simp
  have g: "get_image_features env i w1 = (Inr v, w2)" using g1 r2 by simp
  have n: "client_insert env cn [item_row vf x v] w2 = (Inr res, w3)" using n1 r3 by simp
  have a: "res ''insert_count'' = Some 1" using Cons.prems o g n by simp
  have r: "all_succeed env cn vf xs w3" using Cons.prems o g n by simp
  let ?tr = "tr @ [ImageOpen (image_path x), GetImageFeatures i, Insert cn [item_row vf x v]]"
  have s: "insert_step env cn vf x c (tr, w) = (Inr (c + 1), (?tr, w3))"
    using insert_step_acknowledged [OF o g n a] by simp
  from Cons.IH [OF r, of "c + 1" ?tr] obtain tr' w' where
    l: "insert_loop env cn vf xs (c + 1) (?tr, w3) = (Inr (c + 1 + int (length xs)), (tr', w'))" and
    c1: "calls is_image_open tr' = calls is_image_open ?tr + length xs" and
    c2: "calls is_extract tr' = calls is_extract ?tr + length xs" and
    c3: "calls is_insert tr' = calls is_insert ?tr + length xs"
    by blast
  have "insert_loop env cn vf (x # xs) c (tr, w) = (Inr (c + int (length (x # xs))), (tr', w'))"
    using s l by (simp add: and_then_def)
  moreover have "calls is_image_open tr' = calls is_image_open tr + length (x # xs)"
    using c1 by (simp add: calls_def)
  moreover have "calls is_extract tr' = calls is_extract tr + length (x # xs)"
    using c2 by (simp add: calls_def)
  moreover have "calls is_insert tr' = calls is_insert tr + length (x # xs)"
    using c3 by (simp add: calls_def)
  ultimately show ?case by blast
qed

section \<open>Count conservation\<close>

text \<open>
  C3. When every image load, every embedding extraction and every insert succeeds, each
  insert acknowledged with count 1, the loop over a dataset of N items finishes, the
  count it logs is N, and it has attempted N items: N images opened, N embeddings
  requested and N inserts issued.
\<close>

theorem count_conservation:
  assumes "all_succeed env cn vf items w"
  shows "\<exists>tr' w'. insert_data env cn vf items ([], w) =
             (Inr (), (tr' @ [Log INFO ''Inserted %d images into Milvus'' (ArgInt (int (length items)))], w'))
           \<and> calls is_image_open tr' = length items
           \<and> calls is_extract tr' = length items
           \<and> calls is_insert tr' = length items"
proof -
  from insert_loop_all_succeed [OF assms, of 0 "[]"] obtain tr' w' where
    l: "insert_loop env cn vf items 0 ([], w) = (Inr (int (length items)), (tr', w'))" and
    c: "calls is_image_open tr' = length items" "calls is_extract tr' = length items"
       "calls is_insert tr' = length items"
    by (auto simp: calls_def)
  have "insert_data env cn vf items ([], w) =
          (Inr (), (tr' @ [Log INFO ''Inserted %d images into Milvus'' (ArgInt (int (length items)))], w'))"
    using l by (simp add: insert_data_def and_then_def log_def)
  with c show ?thesis by blast
qed


theorem count_conservation_witness:
  "all_succeed demo_env ''images'' ''vector'' [dog, cat] [(''images'', demo_schema 4)]
   \<and> (\<exists>tr' w'. insert_data demo_env ''images'' ''vector'' [dog, cat]
                   ([], [(''images'', demo_schema 4)]) =
             (Inr (), (tr' @ [Log INFO ''Inserted %d images into Milvus''
                               (ArgInt (int (length [dog, cat])))], w'))
           \<and> calls is_image_open tr' = length [dog, cat]
           \<and> calls is_extract tr' = length [dog, cat]
           \<and> calls is_insert tr' = length [dog, cat])"
proof -
  have h: "all_succeed demo_env ''images'' ''vector'' [dog, cat] [(''images'', demo_schema 4)]"
    by code_simp
  show ?thesis using count_conservation [OF h] h by blast
qed

section \<open>The running count\<close>

lemma and_then_InrE:
  "and_then m f s = (Inr y, s') \<Longrightarrow> \<exists>x s1. m s = (Inr x, s1) \<and> f x s1 = (Inr y, s')"
  by (cases "m s"; cases "fst (m s)") (auto simp: and_then_def)

lemma insert_step_mono:
  assumes "insert_step env cn vf x c s = (Inr c', s')"
  shows "c \<le> c'"
proof -
  from assms obtain i s1 where
    r1: "and_then (call (GetImageFeatures i) (get_image_features env i)) (\<lambda>embeddings.
           and_then (call (Insert cn [item_row vf x embeddings])
                       (client_insert env cn [item_row vf x embeddings])) (\<lambda>res.
             case res ''insert_count'' of
               None \<Rightarrow> throw (KeyError ''insert_count'')
             | Some n \<Rightarrow> if n > 0 then ret (c + n) else ret c)) s1 = (Inr c', s')"
    unfolding insert_step_def by (blast dest: and_then_InrE)
  then obtain v s2 where
    r2: "and_then (call (Insert cn [item_row vf x v]) (client_insert env cn [item_row vf x v]))
           (\<lambda>res. case res ''insert_count'' of
               None \<Rightarrow> throw (KeyError ''insert_count'')
             | Some n \<Rightarrow> if n > 0 then ret (c + n) else ret c) s2 = (Inr c', s')"
    by (blast dest: and_then_InrE)
  then obtain res s3 where
    r3: "(case res ''insert_count'' of
               None \<Rightarrow> throw (KeyError ''insert_count'')
             | Some n \<Rightarrow> if n > 0 then ret (c + n) else ret c) s3 = (Inr c', s')"
    by (blast dest: and_then_InrE)
  then show ?thesis
    by (cases "res ''insert_count''") (auto simp: throw_def ret_def split: if_splits)
qed

lemma insert_loop_mono:
  "insert_loop env cn vf items c s = (Inr c', s') \<Longrightarrow> c \<le> c'"
proof (induction items arbitrary: c s)
  case Nil
  then show ?case by (simp add: ret_def)
next
  case (Cons x xs)
  from Cons.prems obtain c1 s1 where
    st: "insert_step env cn vf x c s = (Inr c1, s1)" and
    lp: "insert_loop env cn vf xs c1 s1 = (Inr c', s')"
    by (auto dest: and_then_InrE)
  from insert_step_mono [OF st] Cons.IH [OF lp] show ?case by simp
qed

lemma insert_data_unfold:
  "insert_data env cn vf items s =
     (case insert_loop env cn vf items 0 s of
        (Inl e, sa) \<Rightarrow> (Inl e, sa)
      | (Inr c, sa) \<Rightarrow>
          (Inr (), (fst sa @ [Log INFO ''Inserted %d images into Milvus'' (ArgInt c)], snd sa)))"
  by (simp add: insert_data_def and_then_def log_def split: prod.splits sum.splits)

lemma insert_data_returns:
  assumes "insert_data env cn vf items s = (Inr u, sf)"
  shows "\<exists>c sa. insert_loop env cn vf items 0 s = (Inr c, sa) \<and> 0 \<le> c
           \<and> sf = (fst sa @ [Log INFO ''Inserted %d images into Milvus'' (ArgInt c)], snd sa)"
proof -
  obtain r sa where l: "insert_loop env cn vf items 0 s = (r, sa)"
    by (cases "insert_loop env cn vf items 0 s")
  show ?thesis
  proof (cases r)
    case (Inl e)
    with l assms show ?thesis by (simp add: insert_data_unfold)
  next
    case (Inr c)
    with l insert_loop_mono [of env cn vf items 0 s c sa] have "0 \<le> c" by simp
    with l Inr assms show ?thesis by (simp add: insert_data_unfold)
  qed
qed

lemma insert_loop_prefix:
  assumes "insert_loop env cn vf (xs @ ys) c s = (Inr cf, sf)"
  shows "\<exists>cp sp. insert_loop env cn vf xs c s = (Inr cp, sp) \<and> c \<le> cp \<and> cp \<le> cf"
proof -
  from assms obtain cp sp where
    a: "insert_loop env cn vf xs c s = (Inr cp, sp)" and
    b: "insert_loop env cn vf ys cp sp = (Inr cf, sf)"
    by (auto simp: insert_loop_append dest: and_then_InrE)
  from insert_loop_mono [OF a] insert_loop_mono [OF b] a show ?thesis by blast
qed

text \<open>
  C10. In every run the running count starts at 0: \<^verbatim>\<open>insert_data\<close> is the loop started
  at 0 followed by the log line, so a run that returns logs the count \<open>c\<close> that the loop
  started at 0 returns, and \<open>0 \<le> c\<close>. An iteration that returns never decreases the
  count, hence neither does the loop, and the count after any prefix of the dataset lies
  between the starting count and the final one. An acknowledgement with a zero or negative
  \<^verbatim>\<open>insert_count\<close> leaves the count unchanged.
\<close>

theorem inserted_count_never_decreases:
  "insert_data env cn vf [] (tr, w) =
     (Inr (), (tr @ [Log INFO ''Inserted %d images into Milvus'' (ArgInt 0)], w))
   \<and> (insert_step env cn vf x c s = (Inr c', s') \<longrightarrow> c \<le> c')
   \<and> (insert_loop env cn vf items c s = (Inr c'', s'') \<longrightarrow> c \<le> c'')
   \<and> (image_open env (image_path x) w = (Inr i, wa)
        \<and> get_image_features env i wa = (Inr v, wb)
        \<and> client_insert env cn [item_row vf x v] wb = (Inr res, wc)
        \<and> res ''insert_count'' = Some n \<and> n \<le> 0
      \<longrightarrow> insert_step env cn vf x c (tr, w) =
            (Inr c, (tr @ [ImageOpen (image_path x), GetImageFeatures i,
                           Insert cn [item_row vf x v]], wc)))
   \<and> insert_data env cn vf items s =
       (case insert_loop env cn vf items 0 s of
          (Inl e, sa) \<Rightarrow> (Inl e, sa)
        | (Inr k, sa) \<Rightarrow>
            (Inr (), (fst sa @ [Log INFO ''Inserted %d images into Milvus'' (ArgInt k)], snd sa)))
   \<and> (insert_data env cn vf items s = (Inr u, sf) \<longrightarrow>
        (\<exists>k sa. insert_loop env cn vf items 0 s = (Inr k, sa) \<and> 0 \<le> k
           \<and> sf = (fst sa @ [Log INFO ''Inserted %d images into Milvus'' (ArgInt k)], snd sa)))
   \<and> (insert_loop env cn vf (xs @ ys) c s = (Inr cf, sg) \<longrightarrow>
        (\<exists>cp sp. insert_loop env cn vf xs c s = (Inr cp, sp) \<and> c \<le> cp \<and> cp \<le> cf))"
proof -
  have a: "insert_data env cn vf [] (tr, w) =
     (Inr (), (tr @ [Log INFO ''Inserted %d images into Milvus'' (ArgInt 0)], w))"
    by (simp add: insert_data_def and_then_def ret_def log_def)
  have b: "insert_step env cn vf x c s = (Inr c', s') \<longrightarrow> c \<le> c'"
    by (blast intro: insert_step_mono)
  have c: "insert_loop env cn vf items c s = (Inr c'', s'') \<longrightarrow> c \<le> c''"
    by (blast intro: insert_loop_mono)
  have d: "image_open env (image_path x) w = (Inr i, wa)
        \<and> get_image_features env i wa = (Inr v, wb)
        \<and> client_insert env cn [item_row vf x v] wb = (Inr res, wc)
        \<and> res ''insert_count'' = Some n \<and> n \<le> 0
      \<longrightarrow> insert_step env cn vf x c (tr, w) =
            (Inr c, (tr @ [ImageOpen (image_path x), GetImageFeatures i,
                           Insert cn [item_row vf x v]], wc))"
    using insert_step_acknowledged [of env x w i wa v wb cn vf res wc n c tr] by auto
  have e: "insert_data env cn vf items s =
       (case insert_loop env cn vf items 0 s of
          (Inl e, sa) \<Rightarrow> (Inl e, sa)
        | (Inr k, sa) \<Rightarrow>
            (Inr (), (fst sa @ [Log INFO ''Inserted %d images into Milvus'' (ArgInt k)], snd sa)))"
    by (rule insert_data_unfold)
  have f: "insert_data env cn vf items s = (Inr u, sf) \<longrightarrow>
        (\<exists>k sa. insert_loop env cn vf items 0 s = (Inr k, sa) \<and> 0 \<le> k
           \<and> sf = (fst sa @ [Log INFO ''Inserted %d images into Milvus'' (ArgInt k)], snd sa))"
    by (blast dest: insert_data_returns)
  have g: "insert_loop env cn vf (xs @ ys) c s = (Inr cf, sg) \<longrightarrow>
        (\<exists>cp sp. insert_loop env cn vf xs c s = (Inr cp, sp) \<and> c \<le> cp \<and> cp \<le> cf)"
    by (blast dest: insert_loop_prefix)
  from a b c d e f g show ?thesis by (intro conjI)
qed

theorem inserted_count_never_decreases_witness:
  "insert_step (ack_env (- 3)) ''images'' ''vector'' dog 5 ([], demo_store) =
       (Inr 5, ([ImageOpen ''dog.jpg'', GetImageFeatures ''dog.jpg'',
                 Insert ''images'' [item_row ''vector'' dog [1, 2, 3, 4]]], demo_store))
   \<and> insert_loop demo_env ''images'' ''vector'' ([dog] @ [cat]) 0 ([], demo_store) =
       (Inr 2, ([ImageOpen ''dog.jpg'', GetImageFeatures ''dog.jpg'',
                 Insert ''images'' [item_row ''vector'' dog [1, 2, 3, 4]],
                 ImageOpen ''cat.jpg'', GetImageFeatures ''cat.jpg'',
                 Insert ''images'' [item_row ''vector'' cat [1, 2, 3, 4]]], demo_store))
   \<and> (\<exists>cp sp. insert_loop demo_env ''images'' ''vector'' [dog] 0 ([], demo_store) = (Inr cp, sp)
         \<and> 0 \<le> cp \<and> cp \<le> 2)
   \<and> (\<exists>k sa. insert_loop demo_env ''images'' ''vector'' [dog, cat] 0 ([], demo_store) = (Inr k, sa)
         \<and> 0 \<le> k
         \<and> snd (insert_data demo_env ''images'' ''vector'' [dog, cat] ([], demo_store)) =
             (fst sa @ [Log INFO ''Inserted %d images into Milvus'' (ArgInt k)], snd sa))"
proof -
  have h: "image_open (ack_env (- 3)) (image_path dog) demo_store = (Inr ''dog.jpg'', demo_store)
        \<and> get_image_features (ack_env (- 3)) ''dog.jpg'' demo_store
            = (Inr [1, 2, 3, 4], demo_store)
        \<and> client_insert (ack_env (- 3)) ''images'' [item_row ''vector'' dog [1, 2, 3, 4]] demo_store
            = (Inr [''insert_count'' \<mapsto> - 3], demo_store)
        \<and> [''insert_count'' \<mapsto> - 3 :: int] ''insert_count'' = Some (- 3) \<and> (- 3 :: int) \<le> 0"
    by (simp add: ack_env_def demo_env_def store_env_def pure_def demo_open_def
          demo_features_def dog_def ret_def)
  have p: "image_path dog = ''dog.jpg''" by (simp add: dog_def)
  have l: "insert_loop demo_env ''images'' ''vector'' ([dog] @ [cat]) 0 ([], demo_store) =
       (Inr 2, ([ImageOpen ''dog.jpg'', GetImageFeatures ''dog.jpg'',
                 Insert ''images'' [item_row ''vector'' dog [1, 2, 3, 4]],
                 ImageOpen ''cat.jpg'', GetImageFeatures ''cat.jpg'',
                 Insert ''images'' [item_row ''vector'' cat [1, 2, 3, 4]]], demo_store))"
    by code_simp
  have r: "insert_data demo_env ''images'' ''vector'' [dog, cat] ([], demo_store) =
       (Inr (), snd (insert_data demo_env ''images'' ''vector'' [dog, cat] ([], demo_store)))"
    by code_simp
  note t = inserted_count_never_decreases
         [where env = "ack_env (- 3)" and cn = "''images''" and vf = "''vector''"
            and tr = "[]" and w = demo_store and x = dog and c = 5 and i = "''dog.jpg''"
            and wa = demo_store and v = "[1, 2, 3, 4]" and wb = demo_store
            and res = "[''insert_count'' \<mapsto> - 3]" and wc = demo_store and n = "- 3"]
  note q = inserted_count_never_decreases
         [where env = demo_env and cn = "''images''" and vf = "''vector''"
            and xs = "[dog]" and ys = "[cat]" and c = 0 and s = "([], demo_store)"
            and cf = 2 and items = "[dog, cat]" and u = "()"
            and sf = "snd (insert_data demo_env ''images'' ''vector'' [dog, cat] ([], demo_store))"]
  have a: "insert_step (ack_env (- 3)) ''images'' ''vector'' dog 5 ([], demo_store) =
       (Inr 5, ([ImageOpen ''dog.jpg'', GetImageFeatures ''dog.jpg'',
                 Insert ''images'' [item_row ''vector'' dog [1, 2, 3, 4]]], demo_store))"
    using t h p by simp
  have b: "\<exists>cp sp. insert_loop demo_env ''images'' ''vector'' [dog] 0 ([], demo_store) = (Inr cp, sp)
         \<and> 0 \<le> cp \<and> cp \<le> 2"
    using q l by blast
  have c: "\<exists>k sa. insert_loop demo_env ''images'' ''vector'' [dog, cat] 0 ([], demo_store) = (Inr k, sa)
         \<and> 0 \<le> k
         \<and> snd (insert_data demo_env ''images'' ''vector'' [dog, cat] ([], demo_store)) =
             (fst sa @ [Log INFO ''Inserted %d images into Milvus'' (ArgInt k)], snd sa)"
    using q r by blast
  from a l b c show ?thesis by (intro conjI)
qed

section \<open>The submitted record\<close>







section \<open>A failing item\<close>

lemma insert_loop_fails_at:
  assumes pre: "insert_loop env cn vf pre c s = (Inr c1, s1)"
    and st: "insert_step env cn vf x c1 s1 = (Inl e, s2)"
  shows "insert_loop env cn vf (pre @ x # post) c s = (Inl e, s2)"
  using pre st by (simp add: insert_loop_append and_then_def)

text \<open>
  C2, as the code has it. No exception is caught in the loop. When the items before \<open>x\<close>
  have been processed and \<open>x\<close> fails at the image load or at the extraction with the
  exception \<open>e\<close>, \<^verbatim>\<open>insert_data\<close> ends with \<open>e\<close>: the trace is that of the items before
  \<open>x\<close> followed by the failing call, no insert is issued for \<open>x\<close> or for any item after
  it, and the final count is not logged.
\<close>

theorem ingestion_stops_at_first_failure:
  assumes pre: "insert_loop env cn vf pre 0 ([], w) = (Inr c, (tr, wa))"
    and fail: "image_open env (image_path x) wa = (Inl e, wb)
      \<or> (\<exists>i wi. image_open env (image_path x) wa = (Inr i, wi)
            \<and> get_image_features env i wi = (Inl e, wb))"
  shows "\<exists>tr'. insert_data env cn vf (pre @ x # post) ([], w) = (Inl e, (tr', wb))
           \<and> (tr' = tr @ [ImageOpen (image_path x)]
                \<or> (\<exists>i. tr' = tr @ [ImageOpen (image_path x), GetImageFeatures i]))"
proof -
  from fail obtain tr' where
    st: "insert_step env cn vf x c (tr, wa) = (Inl e, (tr', wb))" and
    tr: "tr' = tr @ [ImageOpen (image_path x)]
           \<or> (\<exists>i. tr' = tr @ [ImageOpen (image_path x), GetImageFeatures i])"
    using insert_step_load_fails [of env x wa e wb cn vf c tr]
          insert_step_extract_fails [of env x wa _ _ e wb cn vf c tr]
    by blast
  from insert_loop_fails_at [OF pre st]
  have "insert_data env cn vf (pre @ x # post) ([], w) = (Inl e, (tr', wb))"
    by (simp add: insert_data_def and_then_def)
  with tr show ?thesis by blast
qed

theorem ingestion_stops_at_first_failure_witness:
  "insert_loop demo_env ''images'' ''vector'' [dog] 0 ([], demo_store) =
     (Inr 1, ([ImageOpen ''dog.jpg'', GetImageFeatures ''dog.jpg'',
          Insert ''images'' [[(''filename'', Str ''dog.jpg''), (''caption'', Str ''a dog''),
                              (''vector'', Emb [1, 2, 3, 4])]]], demo_store))
   \<and> image_open demo_env (image_path missing) demo_store =
       (Inl (Raised ''FileNotFoundError''), demo_store)
   \<and> (\<exists>tr'. insert_data demo_env ''images'' ''vector'' ([dog] @ missing # [cat]) ([], demo_store) =
               (Inl (Raised ''FileNotFoundError''), (tr', demo_store)))"
proof -
  have pre: "insert_loop demo_env ''images'' ''vector'' [dog] 0 ([], demo_store) =
     (Inr 1, ([ImageOpen ''dog.jpg'', GetImageFeatures ''dog.jpg'',
          Insert ''images'' [[(''filename'', Str ''dog.jpg''), (''caption'', Str ''a dog''),
                              (''vector'', Emb [1, 2, 3, 4])]]], demo_store))"
    by code_simp
  have f: "image_open demo_env (image_path missing) demo_store =
       (Inl (Raised ''FileNotFoundError''), demo_store)"
    by code_simp
  from ingestion_stops_at_first_failure [OF pre, of missing "Raised ''FileNotFoundError''" demo_store "[cat]"] f pre
  show ?thesis by blast
qed

text \<open>
  C2, as stated, fails: of the three items \<^verbatim>\<open>dog\<close>, \<^verbatim>\<open>missing\<close>, \<^verbatim>\<open>cat\<close> exactly one
  cannot be loaded, and the run ends with its exception after one insert, without
  reaching \<^verbatim>\<open>cat\<close>.
\<close>

theorem partial_failure_counterexample:
  "demo_open (image_path dog) = Inr ''dog.jpg''
   \<and> demo_open (image_path missing) = Inl (Raised ''FileNotFoundError'')
   \<and> demo_open (image_path cat) = Inr ''cat.jpg''
   \<and> insert_data demo_env ''images'' ''vector'' [dog, missing, cat] ([], demo_store) =
       (Inl (Raised ''FileNotFoundError''),
        ([ImageOpen ''dog.jpg'', GetImageFeatures ''dog.jpg'',
          Insert ''images'' [[(''filename'', Str ''dog.jpg''), (''caption'', Str ''a dog''),
                              (''vector'', Emb [1, 2, 3, 4])]],
          ImageOpen ''missing.jpg''], demo_store))"
  by code_simp

section \<open>Provisioning the collection\<close>

text \<open>
  \<^verbatim>\<open>create_collection\<close> (lines 47-83) has three paths once \<^verbatim>\<open>list_collections\<close> has
  returned: the name is listed and the flag is off (a warning, nothing else), the name is
  not listed (one \<^verbatim>\<open>create_collection\<close> call), the name is listed and the flag is on (a
  \<^verbatim>\<open>drop_collection\<close> call, a log line, one \<^verbatim>\<open>create_collection\<close> call). The three
  lemmas below give the result and the trace of each path for any client.
\<close>

lemma create_collection_present_keep:
  assumes "client_list_collections env w = (Inr names, wa)" and "cn \<in> set names"
  shows "create_collection env cn vf d m False (tr, w) =
           (Inr (), (tr @ [ListCollections, Log WARNING existing_collection_warning (ArgStr cn)], wa))"
  using assms by (simp add: create_collection_def and_then_def call_def log_def ret_def)

lemma create_collection_absent:
  assumes "client_list_collections env w = (Inr names, wa)" and "cn \<notin> set names"
  shows "create_collection env cn vf d m force (tr, w) =
           (fst (client_create_collection env cn
                   (requested_schema vf d m) wa),
            (tr @ [ListCollections,
                   CreateCollection cn
                     (requested_schema vf d m)],
             snd (client_create_collection env cn
                   (requested_schema vf d m) wa)))"
  using assms
  by (simp add: create_collection_def requested_schema_def and_then_def call_def ret_def
        split: prod.splits)

lemma create_collection_present_replace:
  assumes "client_list_collections env w = (Inr names, wa)" and "cn \<in> set names"
    and "client_drop_collection env cn wa = (Inr (), wb)"
  shows "create_collection env cn vf d m True (tr, w) =
           (fst (client_create_collection env cn
                   (requested_schema vf d m) wb),
            (tr @ [ListCollections, DropCollection cn,
                   Log INFO ''Collection %s dropped.'' (ArgStr cn),
                   CreateCollection cn
                     (requested_schema vf d m)],
             snd (client_create_collection env cn
                   (requested_schema vf d m) wb)))"
  using assms
  by (simp add: create_collection_def requested_schema_def and_then_def call_def ret_def log_def
        split: prod.splits)

lemma create_collection_first_call:
  "take (Suc (length tr)) (fst (snd (create_collection env cn vf d m force (tr, w)))) =
     tr @ [ListCollections]"
proof (cases "client_list_collections env w")
  case (Pair r wa)
  show ?thesis
  proof (cases r)
    case (Inl e)
    with Pair show ?thesis
      by (simp add: create_collection_def and_then_def call_def)
  next
    case (Inr names)
    show ?thesis
    proof (cases "cn \<in> set names")
      case False
      with Pair Inr show ?thesis
        by (simp add: create_collection_absent)
    next
      case True
      show ?thesis
      proof (cases force)
        case False
        with True Pair Inr show ?thesis
          by (simp add: create_collection_present_keep)
      next
        case f: True
        obtain r2 wb where d: "client_drop_collection env cn wa = (r2, wb)"
          by (cases "client_drop_collection env cn wa")
        show ?thesis
        proof (cases r2)
          case (Inl e)
          with d f True Pair Inr show ?thesis
            by (simp add: create_collection_def and_then_def call_def)
        next
          case Inr2: (Inr u)
          with d f True Pair Inr show ?thesis
            by (simp add: create_collection_present_replace)
        qed
      qed
    qed
  qed
qed

lemma map_of_filter_other:
  "map_of (filter (\<lambda>p. fst p \<noteq> k) st) n = (if n = k then None else map_of st n)"
  by (induction st) auto

lemma listed_iff: "cn \<in> set (map fst st) \<longleftrightarrow> map_of st cn \<noteq> None"
  by (simp add: map_of_eq_None_iff)

lemma store_env_list:
  "client_list_collections (store_env accepts len opn feat ra rb) st = (Inr (map fst st), st)"
  by (simp add: store_env_def store_list_def)

lemma store_env_drop:
  "client_drop_collection (store_env accepts len opn feat ra rb) cn st =
     (Inr (), filter (\<lambda>p. fst p \<noteq> cn) st)"
  by (simp add: store_env_def store_drop_def)

lemma store_env_create_fresh:
  "accepts sch \<Longrightarrow> map_of st cn = None \<Longrightarrow>
   client_create_collection (store_env accepts len opn feat ra rb) cn sch st =
     (Inr (), st @ [(cn, sch)])"
  by (simp add: store_env_def store_create_def)

lemma calls_simps:
  "calls P [] = 0"
  "calls P (e # es) = (if P e then Suc (calls P es) else calls P es)"
  by (simp_all add: calls_def)

text \<open>
  Claim C6 (replacement correctness). When the name is present in the store and
  \<^verbatim>\<open>delete_existing_collection\<close> is set, \<^verbatim>\<open>create_collection\<close> lists the collections, drops
  the existing one, and creates a new one, in this order; on the reference store, whose
  \<^verbatim>\<open>create_collection\<close> accepts the requested schema, the call returns, the store afterwards
  maps the name to exactly the requested schema (whatever the old schema was) and every
  other name to what it held before, and the outcome read off the calls is \<open>Replaced\<close>.
\<close>

theorem replacement_correctness:
  assumes "map_of st cn = Some old" and "accepts (requested_schema vf d m)"
  shows "create_collection (store_env accepts len opn feat ra rb) cn vf d m True (tr, st) =
           (Inr (), (tr @ [ListCollections, DropCollection cn,
                           Log INFO ''Collection %s dropped.'' (ArgStr cn),
                           CreateCollection cn (requested_schema vf d m)],
                     filter (\<lambda>p. fst p \<noteq> cn) st @ [(cn, requested_schema vf d m)]))
    \<and> map_of (filter (\<lambda>p. fst p \<noteq> cn) st @ [(cn, requested_schema vf d m)]) n =
        (if n = cn then Some (requested_schema vf d m) else map_of st n)
    \<and> provision_outcome
        (fst (snd (create_collection (store_env accepts len opn feat ra rb) cn vf d m True
                     ([], st)))) = Some Replaced"
proof -
  let ?E = "store_env accepts len opn feat ra rb"
  let ?st = "filter (\<lambda>p. fst p \<noteq> cn) st"
  have l: "cn \<in> set (map fst st)" unfolding listed_iff using assms(1) by simp
  have f: "map_of ?st cn = None" by (simp add: map_of_filter_other)
  have c: "client_create_collection ?E cn (requested_schema vf d m) ?st =
             (Inr (), ?st @ [(cn, requested_schema vf d m)])"
    using assms(2) f by (rule store_env_create_fresh)
  have r: "create_collection ?E cn vf d m True (t, st) =
           (Inr (), (t @ [ListCollections, DropCollection cn,
                           Log INFO ''Collection %s dropped.'' (ArgStr cn),
                           CreateCollection cn (requested_schema vf d m)],
                     ?st @ [(cn, requested_schema vf d m)]))" for t
    using create_collection_present_replace
            [where env = "?E" and tr = t and vf = vf and d = d and m = m,
             OF store_env_list l store_env_drop] c
    by simp
  have m: "map_of (?st @ [(cn, requested_schema vf d m)]) n =
        (if n = cn then Some (requested_schema vf d m) else map_of st n)"
    by (simp add: map_of_filter_other map_add_def split: option.splits)
  have p: "provision_outcome (fst (snd (create_collection ?E cn vf d m True ([], st)))) =
             Some Replaced"
    by (simp add: r provision_outcome_def calls_simps)
  from r m p show ?thesis by simp
qed

theorem replacement_correctness_witness:
  "create_collection demo_env ''images'' ''vector'' 4 ''COSINE'' True
       ([], [(''images'', demo_schema 8)]) =
     (Inr (), ([ListCollections, DropCollection ''images'',
                Log INFO ''Collection %s dropped.'' (ArgStr ''images''),
                CreateCollection ''images'' (demo_schema 4)],
               [(''images'', demo_schema 4)]))
   \<and> map_of [(''images'', demo_schema 4)] ''images'' = Some (demo_schema 4)
   \<and> demo_schema 8 \<noteq> demo_schema 4"
proof -
  have h: "map_of [(''images'', demo_schema 8)] ''images'' = Some (demo_schema 8)"
    by simp
  have a: "0 < dim (requested_schema ''vector'' 4 ''COSINE'')"
    by (simp add: requested_schema_def)
  have e: "requested_schema ''vector'' 4 ''COSINE'' = demo_schema 4"
    by (simp add: requested_schema_def demo_schema_def)
  have n: "demo_schema 8 \<noteq> demo_schema 4"
    by (simp add: demo_schema_def)
  from replacement_correctness
         [where st = "[(''images'', demo_schema 8)]" and cn = "''images''"
            and old = "demo_schema 8" and accepts = "\<lambda>sch. 0 < dim sch" and vf = "''vector''"
            and d = 4 and m = "''COSINE''" and len = "\<lambda>v. int (length v)"
            and opn = demo_open and feat = demo_features and ra = demo_dataset
            and rb = demo_dataset and tr = "[]" and n = "''images''"]
       h a e n
  show ?thesis by (simp add: demo_env_def)
qed

text \<open>
  Claim C7 (idempotent provisioning). On the reference store, when the name is absent
  and the flag is off, a first call of \<^verbatim>\<open>create_collection\<close> creates the collection with
  the requested schema (outcome \<open>Created\<close>); a second call with the same name and the flag
  off, whatever vector field, dimension and metric it asks for, issues only
  \<^verbatim>\<open>list_collections\<close> and a warning (outcome \<open>Skipped\<close>): no create, no drop, the store is
  unchanged and the name still holds the schema of the first call.
\<close>

theorem idempotent_provisioning:
  assumes "map_of st cn = None" and "accepts (requested_schema vf d m)"
  shows "create_collection (store_env accepts len opn feat ra rb) cn vf d m False (tr, st) =
           (Inr (), (tr @ [ListCollections, CreateCollection cn (requested_schema vf d m)],
                     st @ [(cn, requested_schema vf d m)]))
    \<and> provision_outcome
        (fst (snd (create_collection (store_env accepts len opn feat ra rb) cn vf d m False
                     ([], st)))) = Some Created
    \<and> create_collection (store_env accepts len opn feat ra rb) cn vfb db mb False
          (trb, st @ [(cn, requested_schema vf d m)]) =
           (Inr (), (trb @ [ListCollections,
                            Log WARNING existing_collection_warning (ArgStr cn)],
                     st @ [(cn, requested_schema vf d m)]))
    \<and> provision_outcome
        (fst (snd (create_collection (store_env accepts len opn feat ra rb) cn vfb db mb False
                     ([], st @ [(cn, requested_schema vf d m)])))) = Some Skipped
    \<and> calls is_create
        (fst (snd (create_collection (store_env accepts len opn feat ra rb) cn vfb db mb False
                     ([], st @ [(cn, requested_schema vf d m)])))) = 0
    \<and> calls is_drop
        (fst (snd (create_collection (store_env accepts len opn feat ra rb) cn vfb db mb False
                     ([], st @ [(cn, requested_schema vf d m)])))) = 0
    \<and> map_of (st @ [(cn, requested_schema vf d m)]) cn = Some (requested_schema vf d m)"
proof -
  let ?E = "store_env accepts len opn feat ra rb"
  let ?st = "st @ [(cn, requested_schema vf d m)]"
  have l: "cn \<notin> set (map fst st)" unfolding listed_iff using assms(1) by simp
  have c: "client_create_collection ?E cn (requested_schema vf d m) st = (Inr (), ?st)"
    using assms(2) assms(1) by (rule store_env_create_fresh)
  have a: "create_collection ?E cn vf d m False (t, st) =
           (Inr (), (t @ [ListCollections, CreateCollection cn (requested_schema vf d m)], ?st))"
    for t
    using create_collection_absent
            [where env = "?E" and tr = t and vf = vf and d = d and m = m and force = False,
             OF store_env_list l] c
    by simp
  have l2: "cn \<in> set (map fst ?st)" by simp
  have b: "create_collection ?E cn vfb db mb False (t, ?st) =
           (Inr (), (t @ [ListCollections, Log WARNING existing_collection_warning (ArgStr cn)],
                     ?st))" for t
    using create_collection_present_keep
            [where env = "?E" and tr = t and vf = vfb and d = db and m = mb,
             OF store_env_list l2]
    by simp
  have m: "map_of ?st cn = Some (requested_schema vf d m)"
    using assms(1) by (simp add: map_add_def)
  from m show ?thesis
    by (simp add: a b provision_outcome_def calls_simps)
qed

theorem idempotent_provisioning_witness:
  "create_collection demo_env ''images'' ''vector'' 4 ''COSINE'' False ([], []) =
     (Inr (), ([ListCollections, CreateCollection ''images'' (demo_schema 4)],
               [(''images'', demo_schema 4)]))
   \<and> create_collection demo_env ''images'' ''vector'' 8 ''L2'' False
       ([], [(''images'', demo_schema 4)]) =
     (Inr (), ([ListCollections,
                Log WARNING existing_collection_warning (ArgStr ''images'')],
               [(''images'', demo_schema 4)]))"
proof -
  have h: "map_of ([] :: store) ''images'' = None"
    by simp
  have a: "0 < dim (requested_schema ''vector'' 4 ''COSINE'')"
    by (simp add: requested_schema_def)
  have e: "requested_schema ''vector'' 4 ''COSINE'' = demo_schema 4"
    by (simp add: requested_schema_def demo_schema_def)
  from idempotent_provisioning
         [where st = "[]" and cn = "''images''"
            and accepts = "\<lambda>sch. 0 < dim sch" and vf = "''vector''"
            and d = 4 and m = "''COSINE''" and len = "\<lambda>v. int (length v)"
            and opn = demo_open and feat = demo_features and ra = demo_dataset
            and rb = demo_dataset and tr = "[]" and trb = "[]" and vfb = "''vector''"
            and db = 8 and mb = "''L2''"]
       h a e
  show ?thesis by (simp add: demo_env_def)
qed

lemma demo_env_list: "client_list_collections demo_env st = (Inr (map fst st), st)"
  by (simp add: demo_env_def store_env_list)

lemma demo_env_drop:
  "client_drop_collection demo_env cn st = (Inr (), filter (\<lambda>p. fst p \<noteq> cn) st)"
  by (simp add: demo_env_def store_env_drop)

lemma demo_env_create_fresh:
  "0 < d \<Longrightarrow> map_of st cn = None \<Longrightarrow>
   client_create_collection demo_env cn (requested_schema vf d m) st =
     (Inr (), st @ [(cn, requested_schema vf d m)])"
  by (simp add: demo_env_def store_env_def store_create_def requested_schema_def)

lemma demo_env_create_refused:
  "d \<le> 0 \<Longrightarrow>
   client_create_collection demo_env cn (requested_schema vf d m) st =
     (Inl (Raised ''MilvusException''), st)"
  by (simp add: demo_env_def store_env_def store_create_def requested_schema_def)

lemma requested_schema_demo: "requested_schema ''vector'' d ''COSINE'' = demo_schema d"
  by (simp add: requested_schema_def demo_schema_def)

text \<open>
  Claim C8 (replacement on an absent name). When \<^verbatim>\<open>list_collections\<close> does not list the
  name, \<^verbatim>\<open>create_collection\<close> with \<^verbatim>\<open>delete_existing_collection\<close> set does exactly what it
  does with the flag off: it issues one \<^verbatim>\<open>create_collection\<close> call with the requested
  schema and returns what that call returns, it issues no \<^verbatim>\<open>drop_collection\<close> call, and the
  outcome read off the calls is \<open>Created\<close>. The absence of the name is never reported as
  an error; on the reference store the call returns normally.
\<close>

theorem replace_on_absent_name:
  assumes "client_list_collections env w = (Inr names, wa)" and "cn \<notin> set names"
  shows "create_collection env cn vf d m True (tr, w) =
           create_collection env cn vf d m False (tr, w)
    \<and> create_collection env cn vf d m True (tr, w) =
        (fst (client_create_collection env cn (requested_schema vf d m) wa),
         (tr @ [ListCollections, CreateCollection cn (requested_schema vf d m)],
          snd (client_create_collection env cn (requested_schema vf d m) wa)))
    \<and> calls is_drop (fst (snd (create_collection env cn vf d m True (tr, w)))) =
        calls is_drop tr
    \<and> provision_outcome (fst (snd (create_collection env cn vf d m True ([], w)))) =
        Some Created"
  by (simp add: create_collection_absent [OF assms] calls_append calls_simps
        provision_outcome_def)

theorem replace_on_absent_name_witness:
  "create_collection demo_env ''images'' ''vector'' 4 ''COSINE'' True ([], []) =
     (Inr (), ([ListCollections, CreateCollection ''images'' (demo_schema 4)],
               [(''images'', demo_schema 4)]))
   \<and> create_collection demo_env ''images'' ''vector'' 4 ''COSINE'' True ([], []) =
       create_collection demo_env ''images'' ''vector'' 4 ''COSINE'' False ([], [])
   \<and> calls is_drop
       (fst (snd (create_collection demo_env ''images'' ''vector'' 4 ''COSINE'' True
                    ([], [])))) = 0"
proof -
  have l: "client_list_collections demo_env ([] :: store) = (Inr [], [])"
    by (simp add: demo_env_list)
  have n: "''images'' \<notin> set ([] :: string list)"
    by simp
  have c: "client_create_collection demo_env ''images''
             (requested_schema ''vector'' 4 ''COSINE'') [] =
           (Inr (), [(''images'', demo_schema 4)])"
    using demo_env_create_fresh
            [where d = 4 and st = "[]" and cn = "''images''" and vf = "''vector''"
               and m = "''COSINE''"]
    by (simp add: requested_schema_demo)
  note t = replace_on_absent_name
         [where env = demo_env and w = "[]" and names = "[]" and wa = "[]"
            and cn = "''images''" and vf = "''vector''" and d = 4 and m = "''COSINE''"
            and tr = "[]", OF l n]
  note ta = t [THEN conjunct1]
  from t [THEN conjunct2, THEN conjunct1] c
  have tb: "create_collection demo_env ''images'' ''vector'' 4 ''COSINE'' True ([], []) =
     (Inr (), ([ListCollections, CreateCollection ''images'' (demo_schema 4)],
               [(''images'', demo_schema 4)]))"
    by (simp add: requested_schema_demo)
  from t [THEN conjunct2, THEN conjunct2, THEN conjunct1]
  have tc: "calls is_drop
       (fst (snd (create_collection demo_env ''images'' ''vector'' 4 ''COSINE'' True
                    ([], [])))) = 0"
    by (simp add: calls_simps)
  from tb ta tc show ?thesis by blast
qed

text \<open>
  Claim C5 (a non-positive dimension). \<^verbatim>\<open>create_collection\<close> never inspects \<^verbatim>\<open>dimension\<close>:
  for every dimension, positive or not, its first action is the store call
  \<^verbatim>\<open>list_collections\<close>, and on each path that reaches the creation (name not listed; name
  listed, flag set and the drop returned) the dimension is forwarded unchanged in the
  schema of the \<^verbatim>\<open>create_collection\<close> store call, whose result is the result of the
  function. A rejection, if any, is the store's, and it comes after the store has been
  contacted and, on the replacing path, after the existing collection has been dropped.
\<close>

theorem dimension_forwarded_unchecked:
  "take (Suc (length tr)) (fst (snd (create_collection env cn vf d m force (tr, w)))) =
     tr @ [ListCollections]
   \<and> (client_list_collections env w = (Inr names, wa) \<and> cn \<notin> set names \<longrightarrow>
        create_collection env cn vf d m force (tr, w) =
          (fst (client_create_collection env cn (requested_schema vf d m) wa),
           (tr @ [ListCollections, CreateCollection cn (requested_schema vf d m)],
            snd (client_create_collection env cn (requested_schema vf d m) wa))))
   \<and> (client_list_collections env w = (Inr names, wa) \<and> cn \<in> set names
        \<and> client_drop_collection env cn wa = (Inr (), wb) \<longrightarrow>
        create_collection env cn vf d m True (tr, w) =
          (fst (client_create_collection env cn (requested_schema vf d m) wb),
           (tr @ [ListCollections, DropCollection cn,
                  Log INFO ''Collection %s dropped.'' (ArgStr cn),
                  CreateCollection cn (requested_schema vf d m)],
            snd (client_create_collection env cn (requested_schema vf d m) wb))))
   \<and> dim (requested_schema vf d m) = d"
proof -
  have a: "take (Suc (length tr)) (fst (snd (create_collection env cn vf d m force (tr, w)))) =
     tr @ [ListCollections]"
    by (rule create_collection_first_call)
  have b: "client_list_collections env w = (Inr names, wa) \<and> cn \<notin> set names \<longrightarrow>
        create_collection env cn vf d m force (tr, w) =
          (fst (client_create_collection env cn (requested_schema vf d m) wa),
           (tr @ [ListCollections, CreateCollection cn (requested_schema vf d m)],
            snd (client_create_collection env cn (requested_schema vf d m) wa)))"
    using create_collection_absent [of env w names wa cn vf d m force tr] by blast
  have c: "client_list_collections env w = (Inr names, wa) \<and> cn \<in> set names
        \<and> client_drop_collection env cn wa = (Inr (), wb) \<longrightarrow>
        create_collection env cn vf d m True (tr, w) =
          (fst (client_create_collection env cn (requested_schema vf d m) wb),
           (tr @ [ListCollections, DropCollection cn,
                  Log INFO ''Collection %s dropped.'' (ArgStr cn),
                  CreateCollection cn (requested_schema vf d m)],
            snd (client_create_collection env cn (requested_schema vf d m) wb)))"
    using create_collection_present_replace [of env w names wa cn wb vf d m tr] by blast
  have e: "dim (requested_schema vf d m) = d"
    by (simp add: requested_schema_def)
  from a b c e show ?thesis by blast
qed

theorem dimension_forwarded_unchecked_witness:
  "create_collection demo_env ''photos'' ''vector'' (- 5) ''COSINE'' False
       ([], demo_store) =
     (Inl (Raised ''MilvusException''),
      ([ListCollections, CreateCollection ''photos'' (demo_schema (- 5))], demo_store))
   \<and> create_collection demo_env ''images'' ''vector'' 0 ''COSINE'' True ([], demo_store) =
     (Inl (Raised ''MilvusException''),
      ([ListCollections, DropCollection ''images'',
        Log INFO ''Collection %s dropped.'' (ArgStr ''images''),
        CreateCollection ''images'' (demo_schema 0)], []))
   \<and> take 1 (fst (snd (create_collection demo_env ''images'' ''vector'' 0 ''COSINE'' True
                         ([], demo_store)))) = [ListCollections]
   \<and> dim (demo_schema 0) = 0"
proof -
  have l: "client_list_collections demo_env demo_store = (Inr [''images''], demo_store)"
    by (simp add: demo_env_list demo_store_def)
  have dr: "client_drop_collection demo_env ''images'' demo_store = (Inr (), [])"
    by (simp add: demo_env_drop demo_store_def)
  have ca: "client_create_collection demo_env ''photos''
              (requested_schema ''vector'' (- 5) ''COSINE'') demo_store =
            (Inl (Raised ''MilvusException''), demo_store)"
    by (simp add: demo_env_create_refused)
  have cb: "client_create_collection demo_env ''images''
              (requested_schema ''vector'' 0 ''COSINE'') [] =
            (Inl (Raised ''MilvusException''), [])"
    by (simp add: demo_env_create_refused)
  have x: "create_collection demo_env ''photos'' ''vector'' (- 5) ''COSINE'' False
       ([], demo_store) =
     (Inl (Raised ''MilvusException''),
      ([ListCollections, CreateCollection ''photos'' (demo_schema (- 5))], demo_store))"
    using dimension_forwarded_unchecked
            [where env = demo_env and w = demo_store and names = "[''images'']"
               and wa = demo_store and cn = "''photos''" and vf = "''vector''" and d = "- 5"
               and m = "''COSINE''" and tr = "[]" and force = False] l ca
    by (simp add: requested_schema_demo)
  have y: "create_collection demo_env ''images'' ''vector'' 0 ''COSINE'' True ([], demo_store) =
     (Inl (Raised ''MilvusException''),
      ([ListCollections, DropCollection ''images'',
        Log INFO ''Collection %s dropped.'' (ArgStr ''images''),
        CreateCollection ''images'' (demo_schema 0)], []))
     \<and> take 1 (fst (snd (create_collection demo_env ''images'' ''vector'' 0 ''COSINE'' True
                         ([], demo_store)))) = [ListCollections]
     \<and> dim (demo_schema 0) = 0"
    using dimension_forwarded_unchecked
            [where env = demo_env and w = demo_store and names = "[''images'']"
               and wa = demo_store and wb = "[]" and cn = "''images''" and vf = "''vector''"
               and d = 0 and m = "''COSINE''" and tr = "[]" and force = True] l dr cb
    by (simp add: requested_schema_demo)
  from x y show ?thesis by blast
qed

text \<open>
  With dimension 0 on the empty reference store the function contacts the store twice
  before the store's own exception ends it; with a store that accepts every schema it
  returns normally and a collection of dimension 0 exists afterwards.
\<close>

theorem nonpositive_dimension_counterexample:
  "create_collection demo_env ''images'' ''vector'' 0 ''COSINE'' False ([], []) =
     (Inl (Raised ''MilvusException''),
      ([ListCollections, CreateCollection ''images'' (demo_schema 0)], []))
   \<and> calls is_store_call
       (fst (snd (create_collection demo_env ''images'' ''vector'' 0 ''COSINE'' False
                    ([], [])))) = 2
   \<and> create_collection lenient_env ''images'' ''vector'' 0 ''COSINE'' False ([], []) =
     (Inr (), ([ListCollections, CreateCollection ''images'' (demo_schema 0)],
               [(''images'', demo_schema 0)]))"
  by code_simp

section \<open>The whole run\<close>

lemma insert_data_all_succeed:
  assumes "all_succeed env cn vf items w"
  shows "\<exists>tr' w'. insert_data env cn vf items (tr, w) = (Inr (), (tr', w'))
           \<and> calls is_extract tr' = calls is_extract tr + length items
           \<and> calls is_insert tr' = calls is_insert tr + length items"
proof -
  from insert_loop_all_succeed [OF assms, of 0 tr]
  obtain ta wa where
    l: "insert_loop env cn vf items 0 (tr, w) = (Inr (0 + int (length items)), (ta, wa))"
    and e: "calls is_extract ta = calls is_extract tr + length items"
    and i: "calls is_insert ta = calls is_insert tr + length items"
    by blast
  have "insert_data env cn vf items (tr, w) =
          (Inr (), (ta @ [Log INFO ''Inserted %d images into Milvus''
                            (ArgInt (0 + int (length items)))], wa))"
    by (simp add: insert_data_unfold l)
  with e i show ?thesis
    by (simp add: calls_append calls_simps)
qed

text \<open>
  Claim C1 (an existing collection and ingestion). \<^verbatim>\<open>create_collection\<close> returns \<^verbatim>\<open>None\<close>
  on every path and \<^verbatim>\<open>main\<close> never looks at what provisioning did. When the arguments
  parse, \<^verbatim>\<open>delete_existing_collection\<close> is off, the client and the extractor are
  constructed, the collection name is listed and the dataset of a supported type loads,
  provisioning issues \<^verbatim>\<open>list_collections\<close> and the warning only, and the run continues as
  \<^verbatim>\<open>insert_data\<close> on the loaded items, into the existing collection. If no item fails,
  the run returns with one extractor call and one insert call for every item.
\<close>

theorem existing_collection_is_ingested_into:
  assumes p: "parse_args dflt c = Inr a"
    and k: "\<not> delete_existing_collection a"
    and ia: "client_init env (uri a) (db_name a) w = (Inr u, wa)"
    and ib: "extractor_init env wa = (Inr v, wb)"
    and l: "client_list_collections env wb = (Inr names, wc)"
    and e: "collection_name a \<in> set names"
    and ld: "(data_type a = Some ''flickr8k'' \<and> ev = LoadFlickr8k (data_path a)
               \<and> flickr_dataset env (data_path a) wc = (Inr ds, wd))
           \<or> (data_type a = Some ''flickr30k'' \<and> ev = LoadFlickr30k (data_path a)
               \<and> flickr30k_dataset env (data_path a) wc = (Inr ds, wd))"
  shows "create_collection env (collection_name a) (DEFAULT_VECTOR_FIELD_NAME dflt)
           (dimension a) (metric_type a) (delete_existing_collection a) (tr, wb) =
           (Inr (), (tr @ [ListCollections,
                           Log WARNING existing_collection_warning
                             (ArgStr (collection_name a))], wc))
    \<and> main dflt env c ([], w) =
        insert_data env (collection_name a) (DEFAULT_VECTOR_FIELD_NAME dflt) ds
          ([Log INFO ''Running insert operation with arguments: %s'' ArgNone,
            MilvusClientInit (uri a) (db_name a), ExtractorInit, ListCollections,
            Log WARNING existing_collection_warning (ArgStr (collection_name a)), ev], wd)
    \<and> (all_succeed env (collection_name a) (DEFAULT_VECTOR_FIELD_NAME dflt) ds wd \<longrightarrow>
         (\<exists>tr' w'. main dflt env c ([], w) = (Inr (), (tr', w'))
            \<and> calls is_extract tr' = length ds \<and> calls is_insert tr' = length ds))"
proof -
  let ?cn = "collection_name a"
  let ?vf = "DEFAULT_VECTOR_FIELD_NAME dflt"
  let ?T = "[Log INFO ''Running insert operation with arguments: %s'' ArgNone,
            MilvusClientInit (uri a) (db_name a), ExtractorInit, ListCollections,
            Log WARNING existing_collection_warning (ArgStr ?cn), ev]"
  have cc: "create_collection env ?cn ?vf (dimension a) (metric_type a)
              (delete_existing_collection a) (t, wb) =
            (Inr (), (t @ [ListCollections,
                           Log WARNING existing_collection_warning (ArgStr ?cn)], wc))" for t
    using k create_collection_present_keep
              [where env = env and tr = t and vf = "?vf" and d = "dimension a"
                 and m = "metric_type a", OF l e]
    by simp
  have m: "main dflt env c ([], w) = insert_data env ?cn ?vf ds (?T, wd)"
    using ld
  proof (elim disjE conjE)
    assume "data_type a = Some ''flickr8k''" and "ev = LoadFlickr8k (data_path a)"
      and "flickr_dataset env (data_path a) wc = (Inr ds, wd)"
    then show ?thesis
      by (simp add: main_def p and_then_def log_def call_def ia ib cc)
  next
    assume "data_type a = Some ''flickr30k''" and "ev = LoadFlickr30k (data_path a)"
      and "flickr30k_dataset env (data_path a) wc = (Inr ds, wd)"
    then show ?thesis
      by (simp add: main_def p and_then_def log_def call_def ia ib cc)
  qed
  have z: "calls is_extract ?T = 0 \<and> calls is_insert ?T = 0"
    using ld by (auto simp add: calls_simps)
  have s: "all_succeed env ?cn ?vf ds wd \<longrightarrow>
         (\<exists>tr' w'. main dflt env c ([], w) = (Inr (), (tr', w'))
            \<and> calls is_extract tr' = length ds \<and> calls is_insert tr' = length ds)"
  proof
    assume "all_succeed env ?cn ?vf ds wd"
    from insert_data_all_succeed [OF this, of ?T] z m
    show "\<exists>tr' w'. main dflt env c ([], w) = (Inr (), (tr', w'))
            \<and> calls is_extract tr' = length ds \<and> calls is_insert tr' = length ds"
      by simp
  qed
  from cc [of tr] m s show ?thesis by blast
qed

theorem existing_collection_is_ingested_into_witness:
  "main demo_defaults demo_env (demo_cli (Some ''flickr30k'') False) ([], demo_store) =
     insert_data demo_env ''images'' ''vector'' [dog, cat]
       ([Log INFO ''Running insert operation with arguments: %s'' ArgNone,
         MilvusClientInit ''http://localhost:19530'' ''default'', ExtractorInit,
         ListCollections, Log WARNING existing_collection_warning (ArgStr ''images''),
         LoadFlickr30k ''/data''], demo_store)
   \<and> (\<exists>tr' w'. main demo_defaults demo_env (demo_cli (Some ''flickr30k'') False)
                  ([], demo_store) = (Inr (), (tr', w'))
         \<and> calls is_extract tr' = length [dog, cat]
         \<and> calls is_insert tr' = length [dog, cat])"
proof -
  let ?a = "\<lparr>data_path = ''/data'', data_type = Some ''flickr30k'',
             uri = ''http://localhost:19530'', collection_name = ''images'',
             db_name = ''default'', dimension = 4, metric_type = ''COSINE'',
             delete_existing_collection = False\<rparr>"
  have p: "parse_args demo_defaults (demo_cli (Some ''flickr30k'') False) = Inr ?a"
    by (simp add: parse_args_def demo_cli_def demo_defaults_def)
  have k: "\<not> delete_existing_collection ?a"
    by simp
  have ia: "client_init demo_env (uri ?a) (db_name ?a) demo_store = (Inr (), demo_store)"
    by (simp add: demo_env_def store_env_def ret_def)
  have ib: "extractor_init demo_env demo_store = (Inr (), demo_store)"
    by (simp add: demo_env_def store_env_def ret_def)
  have l: "client_list_collections demo_env demo_store = (Inr [''images''], demo_store)"
    by (simp add: demo_env_list demo_store_def)
  have e: "collection_name ?a \<in> set [''images'']"
    by simp
  have ld: "(data_type ?a = Some ''flickr8k'' \<and> LoadFlickr30k ''/data'' = LoadFlickr8k (data_path ?a)
               \<and> flickr_dataset demo_env (data_path ?a) demo_store = (Inr [dog, cat], demo_store))
           \<or> (data_type ?a = Some ''flickr30k'' \<and> LoadFlickr30k ''/data'' = LoadFlickr30k (data_path ?a)
               \<and> flickr30k_dataset demo_env (data_path ?a) demo_store =
                   (Inr [dog, cat], demo_store))"
    by (simp add: demo_env_def store_env_def demo_dataset_def pure_def)
  have s: "all_succeed demo_env ''images'' ''vector'' [dog, cat] demo_store"
    by code_simp
  have vf: "DEFAULT_VECTOR_FIELD_NAME demo_defaults = ''vector''"
    by (simp add: demo_defaults_def)
  note t = existing_collection_is_ingested_into [OF p k ia ib l e ld, where tr = "[]"]
  from t [THEN conjunct2, THEN conjunct1]
  have x: "main demo_defaults demo_env (demo_cli (Some ''flickr30k'') False) ([], demo_store) =
     insert_data demo_env ''images'' ''vector'' [dog, cat]
       ([Log INFO ''Running insert operation with arguments: %s'' ArgNone,
         MilvusClientInit ''http://localhost:19530'' ''default'', ExtractorInit,
         ListCollections, Log WARNING existing_collection_warning (ArgStr ''images''),
         LoadFlickr30k ''/data''], demo_store)"
    by (simp add: vf)
  from t [THEN conjunct2, THEN conjunct2] s
  have y: "\<exists>tr' w'. main demo_defaults demo_env (demo_cli (Some ''flickr30k'') False)
                  ([], demo_store) = (Inr (), (tr', w'))
         \<and> calls is_extract tr' = length [dog, cat]
         \<and> calls is_insert tr' = length [dog, cat]"
    by (simp add: vf)
  from x y show ?thesis by blast
qed

text \<open>
  On the reference store that already holds \<^verbatim>\<open>images\<close>, with the flag off and two items,
  provisioning is the skipping path and the run makes two extractor calls and two insert
  calls.
\<close>

theorem skip_blocks_ingestion_counterexample:
  "main demo_defaults demo_env (demo_cli (Some ''flickr8k'') False) ([], demo_store) =
     (Inr (),
      ([Log INFO ''Running insert operation with arguments: %s'' ArgNone,
        MilvusClientInit ''http://localhost:19530'' ''default'', ExtractorInit,
        ListCollections, Log WARNING existing_collection_warning (ArgStr ''images''),
        LoadFlickr8k ''/data'',
        ImageOpen ''dog.jpg'', GetImageFeatures ''dog.jpg'',
        Insert ''images'' [[(''filename'', Str ''dog.jpg''), (''caption'', Str ''a dog''),
                            (''vector'', Emb [1, 2, 3, 4])]],
        ImageOpen ''cat.jpg'', GetImageFeatures ''cat.jpg'',
        Insert ''images'' [[(''filename'', Str ''cat.jpg''), (''caption'', Str ''a cat''),
                            (''vector'', Emb [1, 2, 3, 4])]],
        Log INFO ''Inserted %d images into Milvus'' (ArgInt 2)], demo_store))
   \<and> provision_outcome
       (fst (snd (create_collection demo_env ''images'' ''vector'' 4 ''COSINE'' False
                    ([], demo_store)))) = Some Skipped
   \<and> calls is_extract
       (fst (snd (main demo_defaults demo_env (demo_cli (Some ''flickr8k'') False)
                    ([], demo_store)))) = 2
   \<and> calls is_insert
       (fst (snd (main demo_defaults demo_env (demo_cli (Some ''flickr8k'') False)
                    ([], demo_store)))) = 2"
  by code_simp

text \<open>
  Claim C4 (an unsupported dataset type). \<^verbatim>\<open>--data_type\<close> is declared with \<^verbatim>\<open>choices\<close>
  but, unlike \<^verbatim>\<open>--data_path\<close>, without \<^verbatim>\<open>required=True\<close>. A command line that omits it
  parses, with \<^verbatim>\<open>data_type\<close> \<^verbatim>\<open>None\<close>; \<^verbatim>\<open>main\<close> then constructs the client and the
  extractor and provisions the collection (here dropping the collection of dimension 8
  and creating one of dimension 4) before its last branch raises
  \<^verbatim>\<open>ValueError("Invalid dataset type")\<close>: exit status 1 after four store calls. A value
  outside \<^verbatim>\<open>choices\<close>, and a missing \<^verbatim>\<open>--data_path\<close>, end the run with status 2 and an
  empty trace.
\<close>

theorem omitted_data_type_reaches_store:
  "main demo_defaults demo_env (demo_cli None True) ([], [(''images'', demo_schema 8)]) =
     (Inl (ValueError ''Invalid dataset type''),
      ([Log INFO ''Running insert operation with arguments: %s'' ArgNone,
        MilvusClientInit ''http://localhost:19530'' ''default'', ExtractorInit,
        ListCollections, DropCollection ''images'',
        Log INFO ''Collection %s dropped.'' (ArgStr ''images''),
        CreateCollection ''images'' (demo_schema 4)],
       [(''images'', demo_schema 4)]))
   \<and> exit_status
       (fst (main demo_defaults demo_env (demo_cli None True)
               ([], [(''images'', demo_schema 8)]))) = 1
   \<and> calls is_store_call
       (fst (snd (main demo_defaults demo_env (demo_cli None True)
                    ([], [(''images'', demo_schema 8)])))) = 4
   \<and> main demo_defaults demo_env (demo_cli (Some ''coco'') True)
       ([], [(''images'', demo_schema 8)]) =
     (Inl (SystemExit 2), ([], [(''images'', demo_schema 8)]))
   \<and> main demo_defaults demo_env (demo_cli None True\<lparr>cli_data_path := None\<rparr>)
       ([], [(''images'', demo_schema 8)]) =
     (Inl (SystemExit 2), ([], [(''images'', demo_schema 8)]))"
  by code_simp

end
